theory Spec2Isabelle
  imports Main "HOL-Library.Sublist"
begin

section \<open>Texts\<close>

text \<open>
  The script \<^verbatim>\<open>cleanup_picks.py\<close> reads one file into the variable \<^verbatim>\<open>content\<close>, rebinds
  \<^verbatim>\<open>content\<close> seventeen times (lines 10 to 67) with \<^verbatim>\<open>str.replace\<close> and \<^verbatim>\<open>re.sub\<close>, and
  writes the result back. A Python \<^verbatim>\<open>str\<close> is a sequence of Unicode code points; a code
  point is a natural number here, so that the whitespace class of \<^verbatim>\<open>\s\<close> is the one of
  Python and \<open>length\<close> is Python's \<^verbatim>\<open>len\<close>.
\<close>

type_synonym codepoint = nat
type_synonym str = "codepoint list"

definition cps :: "string \<Rightarrow> str" where
  "cps s = map of_char s"

text \<open>The characters for which \<^verbatim>\<open>\s\<close> matches in a \<^verbatim>\<open>str\<close> pattern (\<^verbatim>\<open>str.isspace\<close>).\<close>

definition is_space :: "codepoint \<Rightarrow> bool" where
  "is_space c \<longleftrightarrow>
     (9 \<le> c \<and> c \<le> 13) \<or> (28 \<le> c \<and> c \<le> 32) \<or> c = 133 \<or> c = 160 \<or> c = 5760 \<or>
     (8192 \<le> c \<and> c \<le> 8202) \<or> c = 8232 \<or> c = 8233 \<or> c = 8239 \<or> c = 8287 \<or> c = 12288"

section \<open>\<^verbatim>\<open>str.replace\<close>\<close>

text \<open>
  \<^verbatim>\<open>s.replace(old, new)\<close> without a count: scanning from the left, every occurrence of
  \<^verbatim>\<open>old\<close> that does not overlap an earlier replaced one is replaced by \<^verbatim>\<open>new\<close>. For the
  empty \<^verbatim>\<open>old\<close> Python inserts \<^verbatim>\<open>new\<close> before every character and at the end.
\<close>

function str_replace :: "str \<Rightarrow> str \<Rightarrow> str \<Rightarrow> str" where
  "str_replace old new s =
     (if old = [] then new @ concat (map (\<lambda>c. c # new) s)
      else if prefix old s then new @ str_replace old new (drop (length old) s)
      else (case s of [] \<Rightarrow> [] | x # xs \<Rightarrow> x # str_replace old new xs))"
  by pat_completeness auto
termination
  by (relation "measure (\<lambda>(old, new, s). length s)") (auto simp: prefix_def)

section \<open>Regular expressions\<close>

text \<open>
  The patterns of the script are concatenations of single characters and of starred
  character sets: literal characters, \<^verbatim>\<open>.\<close>, \<^verbatim>\<open>\s\<close>, \<^verbatim>\<open>[\s\S]\<close>, the greedy \<^verbatim>\<open>\s*\<close> and
  the lazy \<^verbatim>\<open>.*?\<close> and \<^verbatim>\<open>[\s\S]*?\<close>. They have no group, no alternation and no anchor.
  A pattern is kept in compiled form, as the list of its items.
\<close>

datatype cset = Lit codepoint | Dot | Space | NonSpace | Union cset cset

datatype item = Single cset | Greedy cset | Lazy cset

type_synonym regex = "item list"

text \<open>\<^verbatim>\<open>.\<close> matches every character but the newline, and every character under \<^verbatim>\<open>re.DOTALL\<close>.\<close>

fun in_cset :: "bool \<Rightarrow> cset \<Rightarrow> codepoint \<Rightarrow> bool" where
  "in_cset dotall (Lit k) c = (c = k)"
| "in_cset dotall Dot c = (dotall \<or> c \<noteq> 10)"
| "in_cset dotall Space c = is_space c"
| "in_cset dotall NonSpace c = (\<not> is_space c)"
| "in_cset dotall (Union a b) c = (in_cset dotall a c \<or> in_cset dotall b c)"

text \<open>
  The backtracking matcher of \<^verbatim>\<open>re\<close> at one start position: \<open>rmatch dotall adv r s\<close> is the
  text left after the first match of \<open>r\<close> at the head of \<open>s\<close> in the order the engine tries
  them (a greedy star the longest run first, a lazy star the shortest first), or \<open>None\<close>.
  Under \<open>adv\<close> ("must advance") the empty match is refused, as the engine does when it
  searches again where an empty match has just been found.
\<close>

fun rmatch :: "bool \<Rightarrow> bool \<Rightarrow> regex \<Rightarrow> str \<Rightarrow> str option" where
  "rmatch dotall adv [] s = (if adv then None else Some s)"
| "rmatch dotall adv (Single cs # r) [] = None"
| "rmatch dotall adv (Single cs # r) (x # xs) =
     (if in_cset dotall cs x then rmatch dotall False r xs else None)"
| "rmatch dotall adv (Lazy cs # r) [] = rmatch dotall adv r []"
| "rmatch dotall adv (Lazy cs # r) (x # xs) =
     (case rmatch dotall adv r (x # xs) of
        Some t \<Rightarrow> Some t
      | None \<Rightarrow> if in_cset dotall cs x then rmatch dotall False (Lazy cs # r) xs else None)"
| "rmatch dotall adv (Greedy cs # r) [] = rmatch dotall adv r []"
| "rmatch dotall adv (Greedy cs # r) (x # xs) =
     (if in_cset dotall cs x
      then (case rmatch dotall False (Greedy cs # r) xs of
              Some t \<Rightarrow> Some t
            | None \<Rightarrow> rmatch dotall adv r (x # xs))
      else rmatch dotall adv r (x # xs))"

lemma rmatch_suffix: "rmatch dotall adv r s = Some t \<Longrightarrow> suffix t s"
proof (induction dotall adv r s arbitrary: t rule: rmatch.induct)
  case (1 dotall adv s)
  then show ?case by (simp split: if_splits)
next
  case (3 dotall adv cs r x xs)
  then show ?case by (auto split: if_splits intro: suffix_ConsI)
next
  case (5 dotall adv cs r x xs)
  then show ?case by (auto split: if_splits option.splits intro: suffix_ConsI)
next
  case (7 dotall adv cs r x xs)
  then show ?case by (auto split: if_splits option.splits intro: suffix_ConsI)
qed simp_all

lemma rmatch_advances: "rmatch dotall True r s = Some t \<Longrightarrow> length t < length s"
proof (induction dotall "True" r s arbitrary: t rule: rmatch.induct)
  case (3 dotall cs r x xs)
  then show ?case
    by (auto split: if_splits dest!: rmatch_suffix suffix_length_le)
next
  case (5 dotall cs r x xs)
  then show ?case
    by (auto split: if_splits option.splits dest!: rmatch_suffix suffix_length_le)
next
  case (7 dotall cs r x xs)
  then show ?case
    by (auto split: if_splits option.splits dest!: rmatch_suffix suffix_length_le)
qed simp_all

lemma rmatch_shorter: "rmatch dotall adv r s = Some t \<Longrightarrow> t \<noteq> s \<Longrightarrow> length t < length s"
  by (auto dest!: rmatch_suffix simp: suffix_def)

lemma rmatch_must_advance: "rmatch dotall True r s \<noteq> Some s"
  by (auto dest: rmatch_advances)

text \<open>
  \<^verbatim>\<open>pattern.sub\<close> with a replacement that is already expanded: the text is searched from
  the left; the text before a match is kept, the match is replaced, and the search goes on
  where the match ended. After an empty match the engine searches again at the same place
  for a match that advances.
\<close>

function sub_all :: "bool \<Rightarrow> bool \<Rightarrow> regex \<Rightarrow> str \<Rightarrow> str \<Rightarrow> str" where
  "sub_all dotall adv r repl s =
     (case rmatch dotall adv r s of
        Some t \<Rightarrow>
          if t = s then repl @ sub_all dotall True r repl s
          else repl @ sub_all dotall False r repl t
      | None \<Rightarrow> (case s of [] \<Rightarrow> [] | x # xs \<Rightarrow> x # sub_all dotall False r repl xs))"
  by pat_completeness auto
termination
  by (relation "measures [\<lambda>(dotall, adv, r, repl, s). length s,
                          \<lambda>(dotall, adv, r, repl, s). if adv then 0 else 1]")
     (auto dest: rmatch_shorter simp: rmatch_must_advance)

section \<open>Replacement templates and \<^verbatim>\<open>re.sub\<close>\<close>

datatype error =
  BadEscape codepoint | BadEscapeEnd | GroupReference | FileNotFound | PatternError | Unsupported

text \<open>
  \<^verbatim>\<open>re.sub\<close> treats a replacement string as a template and parses it before it searches
  (\<^verbatim>\<open>parse_template\<close> of the \<^verbatim>\<open>re\<close> module, Python 3.7 and later): a backslash followed by
  one of \<^verbatim>\<open>a b f n r t v \<close> and the backslash stands for a control character or a backslash;
  followed by any other ASCII letter it is the error "bad escape"; followed by
  anything else, both characters are kept. A backslash that ends the string is an error,
  which the tokenizer, reading one token ahead, raises before it handles the escape that
  precedes it. A backslash followed by \<^verbatim>\<open>g\<close> or a digit is a
  group reference (or an octal escape); the patterns here have no group and the
  replacements of the script contain no such escape, so these are all reported as
  \<open>GroupReference\<close> and are outside what is modelled.
\<close>

definition escape_of :: "codepoint \<Rightarrow> codepoint option" where
  "escape_of d =
     (if d = 97 then Some 7 else if d = 98 then Some 8 else if d = 102 then Some 12
      else if d = 110 then Some 10 else if d = 114 then Some 13 else if d = 116 then Some 9
      else if d = 118 then Some 11 else if d = 92 then Some 92 else None)"

definition is_ascii_letter :: "codepoint \<Rightarrow> bool" where
  "is_ascii_letter d \<longleftrightarrow> (65 \<le> d \<and> d \<le> 90) \<or> (97 \<le> d \<and> d \<le> 122)"

definition is_digit :: "codepoint \<Rightarrow> bool" where
  "is_digit d \<longleftrightarrow> 48 \<le> d \<and> d \<le> 57"

definition lappend :: "str \<Rightarrow> error + str \<Rightarrow> error + str" where
  "lappend this rest = (case rest of Inl e \<Rightarrow> Inl e | Inr t \<Rightarrow> Inr (this @ t))"

fun parse_template :: "str \<Rightarrow> error + str" where
  "parse_template [] = Inr []"
| "parse_template [c] = (if c = 92 then Inl BadEscapeEnd else Inr [c])"
| "parse_template (c # d # s) =
     (if c \<noteq> 92 then lappend [c] (parse_template (d # s))
      else if s = [92] then Inl BadEscapeEnd
      else if d = 103 \<or> is_digit d then Inl GroupReference
      else (case escape_of d of
              Some k \<Rightarrow> lappend [k] (parse_template s)
            | None \<Rightarrow>
                if is_ascii_letter d then Inl (BadEscape d)
                else lappend [c, d] (parse_template s)))"

text \<open>
  \<^verbatim>\<open>re.sub(pattern, repl, string, flags)\<close>: the template is parsed first, whether or not
  the pattern matches anywhere; then every match is replaced.
\<close>

definition re_sub :: "regex \<Rightarrow> str \<Rightarrow> str \<Rightarrow> bool \<Rightarrow> error + str" where
  "re_sub pattern repl string dotall =
     (case parse_template repl of
        Inl e \<Rightarrow> Inl e
      | Inr t \<Rightarrow> Inr (sub_all dotall False pattern t string))"

section \<open>The rewrite rules of the script\<close>

text \<open>
  Each of the lines 10 to 67 rebinds \<^verbatim>\<open>content\<close> to the result of one call, either
  \<^verbatim>\<open>content.replace(old, new)\<close> or \<^verbatim>\<open>re.sub(pattern, repl, content)\<close>, the latter with
  \<^verbatim>\<open>flags=re.DOTALL\<close> on lines 18, 24, 55 and 64.
\<close>

datatype rule = Replace str str | Sub regex str bool

fun apply_rule :: "rule \<Rightarrow> str \<Rightarrow> error + str" where
  "apply_rule (Replace old new) content = Inr (str_replace old new content)"
| "apply_rule (Sub pattern repl dotall) content = re_sub pattern repl content dotall"

definition lits :: "string \<Rightarrow> regex" where
  "lits s = map (\<lambda>c. Single (Lit (of_char c))) s"

text \<open>Line 10: \<^verbatim>\<open>content = content.replace("import { BetCard } from './BetCard';\n", "")\<close>\<close>

definition import_line :: str where
  "import_line = cps ''import { BetCard } from './BetCard';\<newline>''"

definition line10 :: rule where
  "line10 = Replace import_line []"

text \<open>Line 14: \<^verbatim>\<open>content = re.sub(r'console\.log\(\'Complete Supabase data structure:\',.*?\);\n', '', content)\<close>\<close>

definition line14 :: rule where
  "line14 = Sub (lits ''console.log('Complete Supabase data structure:','' @ [Lazy Dot]
                 @ lits '');\<newline>'') [] False"

text \<open>Line 15: \<^verbatim>\<open>content = re.sub(r'console\.log\(\'Direct time field check:\',.*?\);\n', '', content)\<close>\<close>

definition line15 :: rule where
  "line15 = Sub (lits ''console.log('Direct time field check:','' @ [Lazy Dot]
                 @ lits '');\<newline>'') [] False"

text \<open>Line 16: \<^verbatim>\<open>content = re.sub(r'console\.log\(\'Processing valid pick from Supabase:\',.*?\);\n', '', content)\<close>\<close>

definition line16 :: rule where
  "line16 = Sub (lits ''console.log('Processing valid pick from Supabase:','' @ [Lazy Dot]
                 @ lits '');\<newline>'') [] False"

text \<open>Line 17: \<^verbatim>\<open>content = re.sub(r'console\.log\(\'Game time from database:\',.*?\);\n', '', content)\<close>\<close>

definition line17 :: rule where
  "line17 = Sub (lits ''console.log('Game time from database:','' @ [Lazy Dot]
                 @ lits '');\<newline>'') [] False"

text \<open>Line 18: \<^verbatim>\<open>content = re.sub(r'console\.log\(\'Time field variations:\',.*?\);\n.*?\);\n', '', content, flags=re.DOTALL)\<close>\<close>

definition pattern18 :: regex where
  "pattern18 = lits ''console.log('Time field variations:','' @ [Lazy Dot]
               @ lits '');\<newline>'' @ [Lazy Dot] @ lits '');\<newline>''"

definition line18 :: rule where
  "line18 = Sub pattern18 [] True"

text \<open>Line 19: \<^verbatim>\<open>content = re.sub(r'console\.log\(\'Valid pick ready for rendering:\',.*?\);\n', '', content)\<close>\<close>

definition line19 :: rule where
  "line19 = Sub (lits ''console.log('Valid pick ready for rendering:','' @ [Lazy Dot]
                 @ lits '');\<newline>'') [] False"

text \<open>Line 20: \<^verbatim>\<open>content = re.sub(r'console\.log\(\'Parsed and enhanced picksArray:\',.*?\);\n', '', content)\<close>\<close>

definition line20 :: rule where
  "line20 = Sub (lits ''console.log('Parsed and enhanced picksArray:','' @ [Lazy Dot]
                 @ lits '');\<newline>'') [] False"

text \<open>Line 21: \<^verbatim>\<open>content = re.sub(r'console\.log\(`Original time parts:.*?\);\n', '', content)\<close>\<close>

definition line21 :: rule where
  "line21 = Sub (lits ''console.log(`Original time parts:'' @ [Lazy Dot]
                 @ lits '');\<newline>'') [] False"

text \<open>Lines 24 to 29: \<^verbatim>\<open>content = re.sub( r'// Debug logs for troubleshooting\s*\n\s*useEffect\(\(\) => \{\s*\n.*?console\.log.*?\n.*?console\.log.*?\n.*?console\.log.*?\n\s*\}, \[picks, loading, error\]\);\n', '', content, flags=re.DOTALL )\<close>\<close>

definition pattern24 :: regex where
  "pattern24 = lits ''// Debug logs for troubleshooting''
               @ [Greedy Space, Single (Lit 10), Greedy Space]
               @ lits ''useEffect(() => {'' @ [Greedy Space, Single (Lit 10), Lazy Dot]
               @ lits ''console.log'' @ [Lazy Dot, Single (Lit 10), Lazy Dot]
               @ lits ''console.log'' @ [Lazy Dot, Single (Lit 10), Lazy Dot]
               @ lits ''console.log'' @ [Lazy Dot, Single (Lit 10), Greedy Space]
               @ lits ''}, [picks, loading, error]);\<newline>''"

definition line24 :: rule where
  "line24 = Sub pattern24 [] True"

text \<open>Line 32: \<^verbatim>\<open>content = content.replace('\n  // Using hardcoded performance values\n', '')\<close>\<close>

definition line32 :: rule where
  "line32 = Replace (cps ''\<newline>  // Using hardcoded performance values\<newline>'') []"

text \<open>Line 35: \<^verbatim>\<open>old_extract_odds = r'// Helper function to extract odds from analysis prompt\s*\n\s*const extractOddsFromAnalysis = \(pick\) => \{[\s\S]*?return \'\';\s*\n\s*\};'\<close>\<close>

definition old_extract_odds :: regex where
  "old_extract_odds = lits ''// Helper function to extract odds from analysis prompt''
               @ [Greedy Space, Single (Lit 10), Greedy Space]
               @ lits ''const extractOddsFromAnalysis = (pick) => {''
               @ [Lazy (Union Space NonSpace)]
               @ lits (''return '' @ [CHR 0x27, CHR 0x27] @ '';'')
               @ [Greedy Space, Single (Lit 10), Greedy Space]
               @ lits ''};''"

text \<open>
  The replacement of line 55, after Python has read the string literal: each \<^verbatim>\<open>\\\<close> of
  the source is one backslash, the code point 92.
\<close>

definition new_extract_odds :: str where
  "new_extract_odds =
     cps (''// Helper function to extract odds from analysis prompt\<newline>'' @
          ''            const extractOddsFromAnalysis = (pick) => {\<newline>'' @
          ''              try {\<newline>'' @
          ''                // Try to get directly from OpenAI output\<newline>'' @
          ''                if (pick.rawAnalysis?.rawOpenAIOutput?.odds) {\<newline>'' @
          ''                  return pick.rawAnalysis.rawOpenAIOutput.odds;\<newline>'' @
          ''                }\<newline>'' @
          ''                \<newline>'' @
          ''                // Extract from analysis prompt if available\<newline>'' @
          ''                if (pick.analysisPrompt) {\<newline>'' @
          ''                  const teamName = pick.pick?.split(' ').slice(0, -1).join(' ');\<newline>'' @
          ''                  const oddsMatch = pick.analysisPrompt.match(new RegExp(`${teamName}.*?'')
     @ 92 # cps ''(([-+]?'' @ 92 # cps ''d+)'' @ 92 #
     cps ('')`));\<newline>'' @
          ''                  if (oddsMatch) return oddsMatch[1];\<newline>'' @
          ''                }\<newline>'' @
          ''              } catch (error) {\<newline>'' @
          ''                console.error('Error extracting odds:', error);\<newline>'' @
          ''              }\<newline>'' @
          ''              return '' @ [CHR 0x27, CHR 0x27] @ '';\<newline>'' @
          ''            };'')"

text \<open>Line 55: \<^verbatim>\<open>content = re.sub(old_extract_odds, new_extract_odds, content, flags=re.DOTALL)\<close>\<close>

definition line55 :: rule where
  "line55 = Sub old_extract_odds new_extract_odds True"

text \<open>Line 58: \<^verbatim>\<open>content = content.replace('// Removed unused state variables for bet tracking\n', '')\<close>\<close>

definition line58 :: rule where
  "line58 = Replace (cps ''// Removed unused state variables for bet tracking\<newline>'') []"

text \<open>Line 59: \<^verbatim>\<open>content = content.replace('\n  // Toast notification system', '')\<close>\<close>

definition line59 :: rule where
  "line59 = Replace (cps ''\<newline>  // Toast notification system'') []"

text \<open>Line 62: \<^verbatim>\<open>content = content.replace('  const [reloadKey, setReloadKey] = useState(0);\n', '')\<close>\<close>

definition line62 :: rule where
  "line62 = Replace (cps ''  const [reloadKey, setReloadKey] = useState(0);\<newline>'') []"

text \<open>Line 64: \<^verbatim>\<open>content = re.sub(r'// Increment reloadKey to force BetCard to reload\s*\n\s*setReloadKey\(prev => \{\s*\n.*?\n.*?\n\s*\}\);\s*\n', '', content, flags=re.DOTALL)\<close>\<close>

definition pattern64 :: regex where
  "pattern64 = lits ''// Increment reloadKey to force BetCard to reload''
               @ [Greedy Space, Single (Lit 10), Greedy Space]
               @ lits ''setReloadKey(prev => {''
               @ [Greedy Space, Single (Lit 10), Lazy Dot, Single (Lit 10), Lazy Dot,
                  Single (Lit 10), Greedy Space]
               @ lits ''});'' @ [Greedy Space, Single (Lit 10)]"

definition line64 :: rule where
  "line64 = Sub pattern64 [] True"

text \<open>Line 67: \<^verbatim>\<open>content = re.sub(r'const pageTitle = visiblePicks\.length[\s\S]*?"Gary\'s Picks";\n', '', content)\<close>\<close>

definition line67 :: rule where
  "line67 = Sub (lits ''const pageTitle = visiblePicks.length''
                 @ [Lazy (Union Space NonSpace)]
                 @ lits ([CHR 0x22] @ ''Gary's Picks'' @ [CHR 0x22] @ '';\<newline>'')) [] False"

text \<open>
  The state of the run is the value of \<^verbatim>\<open>content\<close>, together with the exception once
  one is raised: a call that raises does not rebind \<^verbatim>\<open>content\<close>, and no later statement
  is executed.
\<close>

datatype outcome = Running str | Raised error str

fun assign :: "rule \<Rightarrow> outcome \<Rightarrow> outcome" where
  "assign r (Running content) =
     (case apply_rule r content of Inl e \<Rightarrow> Raised e content | Inr c \<Rightarrow> Running c)"
| "assign r (Raised e content) = Raised e content"

text \<open>Lines 10 to 67, statement by statement.\<close>

definition run :: "str \<Rightarrow> outcome" where
  "run text0 =
     (let content = Running text0;
          content = assign line10 content;
          content = assign line14 content;
          content = assign line15 content;
          content = assign line16 content;
          content = assign line17 content;
          content = assign line18 content;
          content = assign line19 content;
          content = assign line20 content;
          content = assign line21 content;
          content = assign line24 content;
          content = assign line32 content;
          content = assign line55 content;
          content = assign line58 content;
          content = assign line59 content;
          content = assign line62 content;
          content = assign line64 content;
          content = assign line67 content
      in content)"

text \<open>
  The whole script: the file is read (lines 6 and 7), rewritten, and written back
  (lines 70 and 71) before the summary is printed; an exception ends the script where it
  is raised, with the file as it was. A file is the text that reading it gives, and a
  missing file is the one failure of \<^verbatim>\<open>open\<close> that is modelled.
\<close>

definition path :: string where
  "path = ''gary2.0/src/pages/RealGaryPicks.jsx''"

definition summary :: "string list" where
  "summary =
     [''Cleaned up RealGaryPicks.jsx:'',
      ''- Removed unused BetCard import'',
      ''- Removed excessive console.log statements'',
      ''- Removed debug logging effects'',
      ''- Simplified extractOddsFromAnalysis function'',
      ''- Removed unused reloadKey state'',
      ''- Removed unused pageTitle variable'',
      ''- Cleaned up verbose comments'']"

definition script :: "(string \<rightharpoonup> str) \<Rightarrow> (string \<rightharpoonup> str) \<times> (error + string list)" where
  "script files =
     (case files path of
        None \<Rightarrow> (files, Inl FileNotFound)
      | Some text0 \<Rightarrow>
          (case run text0 of
             Raised e content \<Rightarrow> (files, Inl e)
           | Running content \<Rightarrow> (files(path \<mapsto> content), Inr summary)))"

text \<open>The rule list of the pipeline, in the order of the statements.\<close>

definition rules :: "rule list" where
  "rules = [line10, line14, line15, line16, line17, line18, line19, line20, line21, line24,
            line32, line55, line58, line59, line62, line64, line67]"

text \<open>
  Whether the matcher of a rule occurs in a text: the literal as a substring, the pattern
  as a match starting at some position.
\<close>

fun found :: "bool \<Rightarrow> regex \<Rightarrow> str \<Rightarrow> bool" where
  "found dotall r [] = (rmatch dotall False r [] \<noteq> None)"
| "found dotall r (x # xs) = (rmatch dotall False r (x # xs) \<noteq> None \<or> found dotall r xs)"

fun matcher_occurs :: "rule \<Rightarrow> str \<Rightarrow> bool" where
  "matcher_occurs (Replace old new) content = sublist old content"
| "matcher_occurs (Sub pattern repl dotall) content = found dotall pattern content"

fun replacement :: "rule \<Rightarrow> str" where
  "replacement (Replace old new) = new"
| "replacement (Sub pattern repl dotall) = repl"

text \<open>
  Whether the matcher of a rule has to consume a character: a literal that is not empty, a
  pattern that begins with a single character.
\<close>

fun matcher_nonempty :: "rule \<Rightarrow> bool" where
  "matcher_nonempty (Replace old new) = (old \<noteq> [])"
| "matcher_nonempty (Sub (Single cs # r) repl dotall) = True"
| "matcher_nonempty (Sub r repl dotall) = False"

section \<open>Compiling a pattern\<close>









section \<open>The statements with their pattern texts\<close>


























section \<open>The claims in the words of the specification\<close>

text \<open>
  The specification speaks of a one-shot mode that replaces the first match only, and of
  running a transformation on its own output.
\<close>

fun one_shot :: "str \<Rightarrow> str \<Rightarrow> str \<Rightarrow> str" where
  "one_shot old new [] = (if old = [] then new else [])"
| "one_shot old new (x # xs) =
     (if prefix old (x # xs) then new @ drop (length old) (x # xs)
      else x # one_shot old new xs)"

fun result :: "outcome \<Rightarrow> error + str" where
  "result (Running content) = Inr content"
| "result (Raised e content) = Inl e"

definition idempotent_at :: "(str \<Rightarrow> error + str) \<Rightarrow> str \<Rightarrow> bool" where
  "idempotent_at f x = (case f x of Inl e \<Rightarrow> False | Inr y \<Rightarrow> f y = Inr y)"

definition nested_import :: str where
  "nested_import = cps ''import { BetCard } from './Be'' @ import_line @ cps ''tCard';\<newline>''"

text \<open>The four rules that pass \<^verbatim>\<open>re.DOTALL\<close>.\<close>

definition dotall_rules :: "rule list" where
  "dotall_rules = [line18, line24, line55, line64]"

text \<open>
  The closing text of the pattern of line 55, behind its lazy block:
  \<^verbatim>\<open>return \'\';\s*\n\s*\};\<close>
\<close>

definition terminator55 :: regex where
  "terminator55 = lits (''return '' @ [CHR 0x27, CHR 0x27] @ '';'')
                  @ [Greedy Space, Single (Lit 10), Greedy Space] @ lits ''};''"

text \<open>
  Two texts in which a closing text is followed by a statement to keep and by a second
  closing text: a callback of one line for line 64, an effect with two logs for line 24.
\<close>

definition over64 :: str where
  "over64 = cps (''// Increment reloadKey to force BetCard to reload\<newline>'' @
                 ''setReloadKey(prev => {\<newline>'' @
                 ''  return prev + 1;\<newline>'' @
                 ''});\<newline>'' @
                 ''keep();\<newline>'' @
                 ''});\<newline>'' @
                 ''z'')"

definition over24 :: str where
  "over24 = cps (''// Debug logs for troubleshooting\<newline>'' @
                 ''useEffect(() => {\<newline>'' @
                 ''  console.log(picks);\<newline>'' @
                 ''  console.log(loading);\<newline>'' @
                 ''}, [picks, loading, error]);\<newline>'' @
                 ''keep();\<newline>'' @
                 ''console.log(error);\<newline>'' @
                 ''}, [picks, loading, error]);\<newline>'' @
                 ''z'')"

section \<open>Properties of the two library calls\<close>

declare str_replace.simps [simp del] sub_all.simps [simp del]

lemma str_replace_absent: "\<not> sublist old s \<Longrightarrow> str_replace old new s = s"
proof (induction s)
  case Nil
  then show ?case by (subst str_replace.simps) auto
next
  case (Cons x xs)
  from Cons.prems have "old \<noteq> []" by auto
  moreover from Cons.prems have "\<not> prefix old (x # xs)"
    by (auto simp: prefix_imp_sublist)
  moreover from Cons.prems have "\<not> sublist old xs"
    by (auto simp: sublist_Cons_right)
  ultimately show ?case using Cons.IH
    by (subst str_replace.simps) simp
qed

lemma str_replace_length: "length (str_replace old [] s) \<le> length s"
proof (induction old "[] :: str" s rule: str_replace.induct)
  case (1 old s)
  show ?case
  proof (cases "old = []")
    case True
    have "concat (map (\<lambda>c. [c]) s) = s" by (induction s) auto
    with True show ?thesis by (subst str_replace.simps) simp
  next
    case False
    show ?thesis
    proof (cases "prefix old s")
      case True
      with False 1(1) have "length (str_replace old [] (drop (length old) s)) \<le> length s"
        by (auto intro: order_trans)
      with False True show ?thesis by (subst str_replace.simps) simp
    next
      case np: False
      show ?thesis
      proof (cases s)
        case Nil
        with False np show ?thesis by (subst str_replace.simps) simp
      next
        case (Cons x xs)
        with False np 1(2) have "length (str_replace old [] xs) \<le> length xs" by simp
        with False np Cons show ?thesis by (subst str_replace.simps) simp
      qed
    qed
  qed
qed

lemma sub_all_absent: "\<not> found dotall r s \<Longrightarrow> sub_all dotall False r repl s = s"
proof (induction s)
  case Nil
  then show ?case by (subst sub_all.simps) simp
next
  case (Cons x xs)
  then show ?case by (subst sub_all.simps) simp
qed

lemma sub_all_length: "length (sub_all dotall adv r [] s) \<le> length s"
proof (induction dotall adv r "[] :: str" s rule: sub_all.induct)
  case (1 dotall adv r s)
  show ?case
  proof (cases "rmatch dotall adv r s")
    case None
    show ?thesis
    proof (cases s)
      case Nil
      with None show ?thesis by (subst sub_all.simps) simp
    next
      case (Cons x xs)
      with None 1 have "length (sub_all dotall False r [] xs) \<le> length xs" by simp
      with None Cons show ?thesis by (subst sub_all.simps) simp
    qed
  next
    case (Some t)
    show ?thesis
    proof (cases "t = s")
      case True
      with Some 1 have "length (sub_all dotall True r [] s) \<le> length s" by simp
      with Some True show ?thesis by (subst sub_all.simps) simp
    next
      case False
      with Some 1 have "length (sub_all dotall False r [] t) \<le> length t" by simp
      moreover from Some have "length t \<le> length s"
        by (auto dest!: rmatch_suffix suffix_length_le)
      ultimately show ?thesis using Some False by (subst sub_all.simps) simp
    qed
  qed
qed

lemma deletion_total:
  "replacement r = [] \<Longrightarrow> \<exists>y. apply_rule r x = Inr y \<and> length y \<le> length x"
  by (cases r) (auto simp: re_sub_def str_replace_length sub_all_length)

lemma absent_noop:
  "replacement r = [] \<Longrightarrow> \<not> matcher_occurs r x \<Longrightarrow> apply_rule r x = Inr x"
  by (cases r) (auto simp: re_sub_def str_replace_absent sub_all_absent)

text \<open>
  Scanning: the text before the first occurrence of the matcher is copied, the occurrence
  is replaced, and the scan goes on behind it.
\<close>

lemma first_occurrence:
  assumes "\<not> sublist p (a @ butlast p)" and "k < length a"
  shows "\<not> prefix p (drop k a @ p @ x)"
proof
  assume pre: "prefix p (drop k a @ p @ x)"
  from assms(1) have ne: "p \<noteq> []" by auto
  then have split: "p @ x = butlast p @ last p # x" by simp
  have len: "length p \<le> length (drop k a @ butlast p)"
    using assms(2) ne by simp
  from pre have "prefix p ((drop k a @ butlast p) @ last p # x)"
    by (simp add: split)
  with len have "prefix p (drop k a @ butlast p)"
    by (rule prefix_length_prefix [rotated 2]) simp
  then obtain ss where "drop k a @ butlast p = p @ ss"
    by (auto simp: prefix_def)
  then have "a @ butlast p = take k a @ p @ ss"
    by (metis append_assoc append_take_drop_id)
  then have "sublist p (a @ butlast p)"
    by (auto simp: sublist_def)
  with assms(1) show False by simp
qed

lemma str_replace_skip:
  "old \<noteq> [] \<Longrightarrow> (\<forall>k<length a. \<not> prefix old (drop k a @ s)) \<Longrightarrow>
   str_replace old new (a @ s) = a @ str_replace old new s"
proof (induction a)
  case Nil
  then show ?case by simp
next
  case (Cons x a)
  from Cons.prems(2) have "\<not> prefix old (x # a @ s)"
    by (auto dest: spec [of _ 0])
  moreover have "\<forall>k<length a. \<not> prefix old (drop k a @ s)"
    using Cons.prems(2) by (auto dest: spec [of _ "Suc k" for k])
  ultimately show ?case using Cons.IH Cons.prems(1)
    by (subst str_replace.simps) simp
qed

lemma str_replace_hit:
  "old \<noteq> [] \<Longrightarrow> str_replace old new (old @ s) = new @ str_replace old new s"
  by (subst str_replace.simps) simp

lemma str_replace_first:
  assumes "\<not> sublist old (a @ butlast old)"
  shows "str_replace old new (a @ old @ b) = a @ new @ str_replace old new b"
proof -
  from assms have ne: "old \<noteq> []" by auto
  have "\<forall>k<length a. \<not> prefix old (drop k a @ old @ b)"
    using first_occurrence [OF assms] by blast
  with ne show ?thesis
    by (simp add: str_replace_skip str_replace_hit)
qed

lemma str_replace_every:
  "(\<forall>a \<in> set as. \<not> sublist old (a @ butlast old)) \<Longrightarrow> \<not> sublist old z \<Longrightarrow>
   str_replace old new (concat (map (\<lambda>a. a @ old) as) @ z) = concat (map (\<lambda>a. a @ new) as) @ z"
  by (induction as) (simp_all add: str_replace_absent str_replace_first)

lemma rmatch_lits:
  "p \<noteq> [] \<Longrightarrow> rmatch d adv (lits p @ r) s =
     (if prefix (cps p) s then rmatch d False r (drop (length p) s) else None)"
proof (induction p arbitrary: s adv)
  case Nil
  then show ?case by simp
next
  case (Cons c p)
  show ?case
  proof (cases s)
    case Nil
    then show ?thesis by (simp add: lits_def cps_def)
  next
    case (Cons x xs)
    show ?thesis
    proof (cases "p = []")
      case True
      with Cons show ?thesis by (simp add: lits_def cps_def)
    next
      case False
      from Cons.IH [OF False, of False xs] Cons show ?thesis
        by (simp add: lits_def cps_def)
    qed
  qed
qed

lemma lazy_skip:
  "(\<forall>c \<in> set u. in_cset d cs c) \<Longrightarrow> (\<forall>k<length u. rmatch d False t (drop k u @ v) = None) \<Longrightarrow>
   rmatch d False (Lazy cs # t) (u @ v) = rmatch d False (Lazy cs # t) v"
proof (induction u)
  case Nil
  then show ?case by simp
next
  case (Cons x u)
  from Cons.prems(2) have "rmatch d False t (x # u @ v) = None"
    by (auto dest: spec [of _ 0])
  moreover have "\<forall>k<length u. rmatch d False t (drop k u @ v) = None"
    using Cons.prems(2) by (auto dest: spec [of _ "Suc k" for k])
  ultimately show ?case using Cons.IH Cons.prems(1)
    by simp
qed

lemma lazy_hit: "rmatch d False t v = Some w \<Longrightarrow> rmatch d False (Lazy cs # t) v = Some w"
  by (cases v) simp_all

lemma sub_all_skip:
  "(\<forall>k<length a. rmatch d False r (drop k a @ s) = None) \<Longrightarrow>
   sub_all d False r repl (a @ s) = a @ sub_all d False r repl s"
proof (induction a)
  case Nil
  then show ?case by simp
next
  case (Cons x a)
  from Cons.prems have "rmatch d False r (x # a @ s) = None"
    by (auto dest: spec [of _ 0])
  moreover have "\<forall>k<length a. rmatch d False r (drop k a @ s) = None"
    using Cons.prems by (auto dest: spec [of _ "Suc k" for k])
  ultimately show ?case using Cons.IH
    by (subst sub_all.simps) simp
qed

lemma sub_all_hit:
  "rmatch d False r s = Some t \<Longrightarrow> t \<noteq> s \<Longrightarrow>
   sub_all d False r repl s = repl @ sub_all d False r repl t"
  by (subst sub_all.simps) simp

section \<open>The replacement of line 55 is not a valid template\<close>

lemma lappend_lappend: "lappend a (lappend b r) = lappend (a @ b) r"
  by (simp add: lappend_def split: sum.splits)

lemma parse_template_plain:
  "92 \<notin> set a \<Longrightarrow> parse_template (a @ s) = lappend a (parse_template s)"
proof (induction a)
  case Nil
  then show ?case by (simp add: lappend_def split: sum.splits)
next
  case (Cons c a)
  show ?case
  proof (cases "a @ s")
    case Nil
    with Cons.prems show ?thesis by (simp add: lappend_def)
  next
    case (Cons d t)
    with Cons.prems Cons.IH show ?thesis
      by (simp add: lappend_lappend)
  qed
qed

lemma template_new_extract_odds: "parse_template new_extract_odds = Inl (BadEscape 100)"
  unfolding new_extract_odds_def
  by (subst parse_template_plain)
     (simp_all add: cps_def escape_of_def is_digit_def is_ascii_letter_def lappend_def)

lemma line55_raises: "apply_rule line55 x = Inl (BadEscape 100)"
  by (simp add: line55_def re_sub_def template_new_extract_odds)

section \<open>The run\<close>

lemmas rule_defs = line10_def line14_def line15_def line16_def line17_def line18_def
  line19_def line20_def line21_def line24_def line32_def line58_def line59_def line62_def
  line64_def line67_def

lemmas pattern_defs = pattern18_def pattern24_def old_extract_odds_def pattern64_def

lemma deletion_rules: "r \<in> set rules \<Longrightarrow> r \<noteq> line55 \<Longrightarrow> replacement r = []"
  by (auto simp: rules_def rule_defs)

lemma assign_deletion: "replacement r = [] \<Longrightarrow> \<exists>y. assign r (Running x) = Running y"
  using deletion_total [of r x] by auto

lemma run_raises: "\<exists>c. run x = Raised (BadEscape 100) c"
proof -
  obtain c1 where 1: "assign line10 (Running x) = Running c1"
    using assign_deletion [of line10 x] by (auto simp: line10_def)
  obtain c2 where 2: "assign line14 (Running c1) = Running c2"
    using assign_deletion [of line14 c1] by (auto simp: line14_def)
  obtain c3 where 3: "assign line15 (Running c2) = Running c3"
    using assign_deletion [of line15 c2] by (auto simp: line15_def)
  obtain c4 where 4: "assign line16 (Running c3) = Running c4"
    using assign_deletion [of line16 c3] by (auto simp: line16_def)
  obtain c5 where 5: "assign line17 (Running c4) = Running c5"
    using assign_deletion [of line17 c4] by (auto simp: line17_def)
  obtain c6 where 6: "assign line18 (Running c5) = Running c6"
    using assign_deletion [of line18 c5] by (auto simp: line18_def)
  obtain c7 where 7: "assign line19 (Running c6) = Running c7"
    using assign_deletion [of line19 c6] by (auto simp: line19_def)
  obtain c8 where 8: "assign line20 (Running c7) = Running c8"
    using assign_deletion [of line20 c7] by (auto simp: line20_def)
  obtain c9 where 9: "assign line21 (Running c8) = Running c9"
    using assign_deletion [of line21 c8] by (auto simp: line21_def)
  obtain c10 where 10: "assign line24 (Running c9) = Running c10"
    using assign_deletion [of line24 c9] by (auto simp: line24_def)
  obtain c11 where 11: "assign line32 (Running c10) = Running c11"
    using assign_deletion [of line32 c10] by (auto simp: line32_def)
  have 12: "assign line55 (Running c11) = Raised (BadEscape 100) c11"
    by (simp add: line55_raises)
  have "run x = Raised (BadEscape 100) c11"
    by (simp only: run_def Let_def 1 2 3 4 5 6 7 8 9 10 11 12 assign.simps(2))
  then show ?thesis ..
qed

lemma import_line_nonempty: "import_line \<noteq> []"
  by (simp add: import_line_def cps_def)

lemma one_shot_hit: "old \<noteq> [] \<Longrightarrow> one_shot old new (old @ s) = new @ s"
  by (cases old) simp_all

lemma str_replace_Nil: "old \<noteq> [] \<Longrightarrow> str_replace old new [] = []"
  by (subst str_replace.simps) simp

lemma line10_twice: "apply_rule line10 (import_line @ import_line) = Inr []"
  using str_replace_hit [OF import_line_nonempty, of "[]" "import_line @ []"]
    str_replace_hit [OF import_line_nonempty, of "[]" "[]"]
  by (simp add: line10_def str_replace_Nil import_line_nonempty)

lemma rule10_nested: "apply_rule line10 nested_import = Inr import_line"
proof -
  have a: "\<not> sublist import_line (cps ''import { BetCard } from './Be'' @ butlast import_line)"
    by (simp add: import_line_def cps_def sublist_code(3))
  have b: "\<not> sublist import_line (cps ''tCard';\<newline>'')"
    by (simp add: import_line_def cps_def sublist_code(3))
  have "cps ''import { BetCard } from './Be'' @ cps ''tCard';\<newline>'' = import_line"
    by (simp add: import_line_def cps_def)
  with str_replace_first [OF a, of "[]" "cps ''tCard';\<newline>''"] b show ?thesis
    by (simp add: line10_def nested_import_def str_replace_absent)
qed

lemma rule10_import: "apply_rule line10 import_line = Inr []"
  using str_replace_hit [OF import_line_nonempty, of "[]" "[]"]
  by (simp add: line10_def str_replace_Nil import_line_nonempty)

lemma assign_absent:
  "replacement r = [] \<Longrightarrow> \<not> matcher_occurs r c \<Longrightarrow> assign r (Running c) = Running c"
  by (simp add: absent_noop)

lemma run_absent:
  assumes "apply_rule line10 x = Inr c"
    and "\<not> list_ex (\<lambda>r. matcher_occurs r c)
           [line14, line15, line16, line17, line18, line19, line20, line21, line24, line32]"
  shows "run x = Raised (BadEscape 100) c"
proof -
  have 1: "assign line10 (Running x) = Running c"
    using assms(1) by simp
  have 2: "assign line14 (Running c) = Running c"
    using assms(2) by (intro assign_absent) (simp_all add: line14_def)
  have 3: "assign line15 (Running c) = Running c"
    using assms(2) by (intro assign_absent) (simp_all add: line15_def)
  have 4: "assign line16 (Running c) = Running c"
    using assms(2) by (intro assign_absent) (simp_all add: line16_def)
  have 5: "assign line17 (Running c) = Running c"
    using assms(2) by (intro assign_absent) (simp_all add: line17_def)
  have 6: "assign line18 (Running c) = Running c"
    using assms(2) by (intro assign_absent) (simp_all add: line18_def)
  have 7: "assign line19 (Running c) = Running c"
    using assms(2) by (intro assign_absent) (simp_all add: line19_def)
  have 8: "assign line20 (Running c) = Running c"
    using assms(2) by (intro assign_absent) (simp_all add: line20_def)
  have 9: "assign line21 (Running c) = Running c"
    using assms(2) by (intro assign_absent) (simp_all add: line21_def)
  have 10: "assign line24 (Running c) = Running c"
    using assms(2) by (intro assign_absent) (simp_all add: line24_def)
  have 11: "assign line32 (Running c) = Running c"
    using assms(2) by (intro assign_absent) (simp_all add: line32_def)
  have 12: "assign line55 (Running c) = Raised (BadEscape 100) c"
    by (simp add: line55_raises)
  show ?thesis
    by (simp only: run_def Let_def 1 2 3 4 5 6 7 8 9 10 11 12 assign.simps(2))
qed

section \<open>Deletions shorten the text\<close>

lemma str_replace_shrinks:
  "old \<noteq> [] \<Longrightarrow> sublist old s \<Longrightarrow> length (str_replace old [] s) < length s"
proof (induction s)
  case Nil
  then show ?case by simp
next
  case (Cons x xs)
  show ?case
  proof (cases "prefix old (x # xs)")
    case True
    have "length (str_replace old [] (drop (length old) (x # xs)))
        \<le> length (drop (length old) (x # xs))"
      by (rule str_replace_length)
    also have "\<dots> < length (x # xs)"
      using Cons.prems(1) by simp
    finally show ?thesis
      using True Cons.prems(1) by (subst str_replace.simps) simp
  next
    case False
    with Cons.prems(2) have "sublist old xs"
      by (simp add: sublist_Cons_right)
    with Cons.IH Cons.prems(1) have "length (str_replace old [] xs) < length xs"
      by simp
    with False Cons.prems(1) show ?thesis
      by (subst str_replace.simps) simp
  qed
qed

lemma single_head_advances: "rmatch d adv (Single cs # r) s = Some t \<Longrightarrow> t \<noteq> s"
proof (cases s)
  case Nil
  assume "rmatch d adv (Single cs # r) s = Some t"
  with Nil show ?thesis by simp
next
  case (Cons x xs)
  assume "rmatch d adv (Single cs # r) s = Some t"
  with Cons have "rmatch d False r xs = Some t"
    by (simp split: if_splits)
  then have "length t \<le> length xs"
    by (auto dest!: rmatch_suffix suffix_length_le)
  with Cons show ?thesis by auto
qed

lemma sub_all_shrinks:
  assumes "\<And>s t. rmatch d False r s = Some t \<Longrightarrow> t \<noteq> s"
  shows "found d r s \<Longrightarrow> length (sub_all d False r [] s) < length s"
proof (induction s)
  case Nil
  then obtain t where "rmatch d False r [] = Some t"
    by auto
  with assms [of "[]" t] rmatch_suffix [of d False r "[]" t] show ?case
    by simp
next
  case (Cons x xs)
  show ?case
  proof (cases "rmatch d False r (x # xs)")
    case None
    with Cons have "length (sub_all d False r [] xs) < length xs"
      by simp
    with None show ?thesis
      by (subst sub_all.simps) simp
  next
    case (Some t)
    with assms have ne: "t \<noteq> x # xs"
      by blast
    with Some have "length t < length (x # xs)"
      by (rule rmatch_shorter)
    moreover have "length (sub_all d False r [] t) \<le> length t"
      by (rule sub_all_length)
    ultimately show ?thesis using Some ne
      by (subst sub_all.simps) simp
  qed
qed

lemma deletion_changes:
  assumes "replacement r = []" and "matcher_nonempty r" and "matcher_occurs r y"
  shows "apply_rule r y \<noteq> Inr y"
proof (cases r)
  case (Replace old new)
  with assms have "length (str_replace old [] y) < length y"
    by (simp add: str_replace_shrinks)
  with Replace assms(1) show ?thesis
    by auto
next
  case (Sub p repl dotall)
  with assms(2) obtain cs q where p: "p = Single cs # q"
    by (cases "Sub p repl dotall" rule: matcher_nonempty.cases) auto
  have "length (sub_all dotall False p [] y) < length y"
    using assms(3) Sub unfolding p
    by (intro sub_all_shrinks) (auto dest: single_head_advances)
  with Sub assms(1) show ?thesis
    by (auto simp: re_sub_def)
qed

lemma rules_nonempty: "r \<in> set rules \<Longrightarrow> matcher_nonempty r"
  by (auto simp: rules_def rule_defs line55_def pattern_defs lits_def cps_def import_line_def)

section \<open>Lazy blocks\<close>

lemma length_cps: "length (cps p) = length p"
  by (simp add: cps_def)

lemma rmatch_lits_hit: "p \<noteq> [] \<Longrightarrow> rmatch d adv (lits p @ r) (cps p @ s) = rmatch d False r s"
  by (simp add: rmatch_lits length_cps)

lemma rmatch_lits_miss: "\<not> prefix (cps p) s \<Longrightarrow> rmatch d adv (lits p @ r) s = None"
  by (cases "p = []") (simp_all add: rmatch_lits cps_def)

lemma Lazy_not_in_lits: "Lazy cs \<notin> set (lits p)"
  by (auto simp: lits_def)

lemma lazy_nearest:
  assumes "\<forall>c. in_cset d cs c"
    and "\<forall>k<length u. rmatch d False t (drop k u @ v) = None"
    and "rmatch d False t v = Some w"
  shows "rmatch d False (Lazy cs # t) (u @ v) = Some w"
  using assms by (simp add: lazy_skip lazy_hit)

lemma terminator_first:
  assumes "\<not> sublist (cps p) (a @ butlast (cps p))"
  shows "\<forall>k<length a. rmatch d False (lits p @ r) (drop k a @ cps p @ s) = None"
  using first_occurrence [OF assms] by (simp add: rmatch_lits_miss)

lemma rmatch18:
  assumes a: "\<not> sublist (cps '');\<newline>'') (a @ butlast (cps '');\<newline>''))"
    and b: "\<not> sublist (cps '');\<newline>'') (b @ butlast (cps '');\<newline>''))"
  shows "rmatch True False pattern18
           (cps ''console.log('Time field variations:','' @ a @ cps '');\<newline>'' @ b
            @ cps '');\<newline>'' @ rest) = Some rest"
proof -
  have last: "rmatch True False (lits '');\<newline>'') (cps '');\<newline>'' @ rest) = Some rest"
    using rmatch_lits_hit [of "'');\<newline>''" True False "[]" rest] by simp
  have second: "rmatch True False (Lazy Dot # lits '');\<newline>'') (b @ cps '');\<newline>'' @ rest) = Some rest"
    using terminator_first [OF b, of True "[]" rest] last
    by (intro lazy_nearest) simp_all
  have mid: "rmatch True False (lits '');\<newline>'' @ Lazy Dot # lits '');\<newline>'')
               (cps '');\<newline>'' @ b @ cps '');\<newline>'' @ rest) = Some rest"
    using second by (simp add: rmatch_lits_hit)
  have first: "rmatch True False (Lazy Dot # lits '');\<newline>'' @ Lazy Dot # lits '');\<newline>'')
               (a @ cps '');\<newline>'' @ b @ cps '');\<newline>'' @ rest) = Some rest"
    using terminator_first [OF a, of True "Lazy Dot # lits '');\<newline>''"
        "b @ cps '');\<newline>'' @ rest"] mid
    by (intro lazy_nearest) simp_all
  then show ?thesis
    by (simp add: pattern18_def rmatch_lits_hit)
qed

lemma line18_two_terminators:
  assumes a: "\<not> sublist (cps '');\<newline>'') (a @ butlast (cps '');\<newline>''))"
    and b: "\<not> sublist (cps '');\<newline>'') (b @ butlast (cps '');\<newline>''))"
    and pre: "\<not> sublist (cps ''console.log('Time field variations:','')
                (pre @ butlast (cps ''console.log('Time field variations:',''))"
  shows "apply_rule line18
           (pre @ cps ''console.log('Time field variations:','' @ a @ cps '');\<newline>'' @ b
            @ cps '');\<newline>'' @ rest)
         = Inr (pre @ sub_all True False pattern18 [] rest)"
proof -
  let ?m = "cps ''console.log('Time field variations:','' @ a @ cps '');\<newline>'' @ b
            @ cps '');\<newline>'' @ rest"
  have skip: "\<forall>k<length pre. rmatch True False pattern18 (drop k pre @ ?m) = None"
    unfolding pattern18_def by (rule terminator_first [OF pre])
  have "length rest < length ?m"
    by (simp add: length_cps)
  then have "rest \<noteq> ?m"
    by auto
  with rmatch18 [OF a b, of rest]
  have "sub_all True False pattern18 [] ?m = sub_all True False pattern18 [] rest"
    by (simp add: sub_all_hit)
  with sub_all_skip [OF skip, of "[]"] show ?thesis
    by (simp add: line18_def re_sub_def)
qed

lemma no_match_in_short: "apply_rule line18 (cps ''g();\<newline>'') = Inr (cps ''g();\<newline>'')"
  by (intro absent_noop) (simp_all add: line18_def pattern18_def lits_def cps_def)

text \<open>
  A greedy \<^verbatim>\<open>\s*\n\s*\<close> before a part of the pattern that cannot begin with
  whitespace: it takes a whole run of whitespace, provided the run holds a newline.
\<close>

lemma greedy_space:
  assumes "\<forall>c \<in> set w. is_space c"
    and "\<And>c t. is_space c \<Longrightarrow> rmatch d False r (c # t) = None"
    and "s = [] \<or> \<not> is_space (hd s)"
  shows "rmatch d False (Greedy Space # r) (w @ s) = rmatch d False r s"
  using assms(1)
proof (induction w)
  case Nil
  from assms(3) show ?case by (cases s) auto
next
  case (Cons c w)
  then show ?case
    by (cases "rmatch d False r s") (simp_all add: assms(2))
qed

lemma greedy_space_newline:
  assumes "\<forall>c \<in> set w. is_space c"
    and rej: "\<And>c t. is_space c \<Longrightarrow> rmatch d False r (c # t) = None"
    and s: "s = [] \<or> \<not> is_space (hd s)"
  shows "rmatch d False (Greedy Space # Single (Lit 10) # Greedy Space # r) (w @ s)
         = (if 10 \<in> set w then rmatch d False r s else None)"
  using assms(1)
proof (induction w)
  case Nil
  have "is_space 10" by (simp add: is_space_def)
  with s show ?case by (cases s) auto
next
  case (Cons c w)
  then have w: "\<forall>c \<in> set w. is_space c" and c: "is_space c"
    by simp_all
  have g: "rmatch d False (Greedy Space # r) (w @ s) = rmatch d False r s"
    using w rej s by (rule greedy_space)
  from Cons.IH [OF w] c g show ?case
    by (cases "rmatch d False r s") auto
qed

lemma lits_rejects_space:
  assumes "p \<noteq> []" and "\<not> is_space (of_char (hd p))" and "is_space c"
  shows "rmatch d adv (lits p @ r) (c # t) = None"
proof -
  from assms have "\<not> prefix (cps p) (c # t)"
    by (cases p) (auto simp: cps_def)
  then show ?thesis
    by (rule rmatch_lits_miss)
qed

lemma union_any: "in_cset d (Union Space NonSpace) c"
  by simp

lemma terminator55_hit:
  assumes "\<forall>c \<in> set w. is_space c" and "10 \<in> set w"
  shows "rmatch True False terminator55
           (cps (''return '' @ [CHR 0x27, CHR 0x27] @ '';'') @ w @ cps ''};'' @ rest) = Some rest"
proof -
  have rej: "\<And>c t. is_space c \<Longrightarrow> rmatch True False (lits ''};'') (c # t) = None"
    using lits_rejects_space [of "''};''" _ True False "[]"] by (simp add: is_space_def)
  have hd: "cps ''};'' @ rest = [] \<or> \<not> is_space (hd (cps ''};'' @ rest))"
    by (simp add: cps_def is_space_def)
  have "rmatch True False (lits ''};'') (cps ''};'' @ rest) = Some rest"
    using rmatch_lits_hit [of "''};''" True False "[]" rest] by simp
  with greedy_space_newline [OF assms(1) rej hd] assms(2) show ?thesis
    by (simp add: terminator55_def rmatch_lits_hit)
qed

lemma old_extract_odds_split:
  "old_extract_odds = lits ''// Helper function to extract odds from analysis prompt''
     @ Greedy Space # Single (Lit 10) # Greedy Space
     # (lits ''const extractOddsFromAnalysis = (pick) => {''
        @ Lazy (Union Space NonSpace) # terminator55)"
  by (simp add: old_extract_odds_def terminator55_def)

lemma rmatch55:
  assumes w1: "\<forall>c \<in> set w1. is_space c" "10 \<in> set w1"
    and w2: "\<forall>c \<in> set w2. is_space c" "10 \<in> set w2"
    and body: "\<forall>k<length body. rmatch True False terminator55
                 (drop k body @ cps (''return '' @ [CHR 0x27, CHR 0x27] @ '';'') @ w2
                  @ cps ''};'' @ rest) = None"
  shows "rmatch True False old_extract_odds
           (cps ''// Helper function to extract odds from analysis prompt'' @ w1
            @ cps ''const extractOddsFromAnalysis = (pick) => {'' @ body
            @ cps (''return '' @ [CHR 0x27, CHR 0x27] @ '';'') @ w2 @ cps ''};'' @ rest)
         = Some rest"
proof -
  let ?F = "''const extractOddsFromAnalysis = (pick) => {''"
  let ?tail = "cps (''return '' @ [CHR 0x27, CHR 0x27] @ '';'') @ w2 @ cps ''};'' @ rest"
  let ?r = "lits ?F @ Lazy (Union Space NonSpace) # terminator55"
  have lazy: "rmatch True False (Lazy (Union Space NonSpace) # terminator55) (body @ ?tail)
      = Some rest"
    using union_any body terminator55_hit [OF w2, of rest]
    by (intro lazy_nearest) auto
  have rej: "\<And>c t. is_space c \<Longrightarrow> rmatch True False ?r (c # t) = None"
    using lits_rejects_space [of ?F] by (simp add: is_space_def)
  have hd: "cps ?F @ body @ ?tail = [] \<or> \<not> is_space (hd (cps ?F @ body @ ?tail))"
    by (simp add: cps_def is_space_def)
  have "rmatch True False ?r (cps ?F @ body @ ?tail) = Some rest"
    using lazy by (simp add: rmatch_lits_hit)
  with greedy_space_newline [OF w1(1) rej hd] w1(2)
  have "rmatch True False (Greedy Space # Single (Lit 10) # Greedy Space # ?r)
          (w1 @ cps ?F @ body @ ?tail) = Some rest"
    by simp
  then show ?thesis
    by (simp add: old_extract_odds_split rmatch_lits_hit)
qed

lemma dotall_rules_lazy:
  "r \<in> set dotall_rules \<Longrightarrow> r = Sub p repl d \<Longrightarrow> Lazy cs \<in> set p \<Longrightarrow> d \<and> in_cset d cs c"
  by (auto simp: dotall_rules_def line18_def line24_def line55_def line64_def pattern_defs
      Lazy_not_in_lits)

lemma o64: "apply_rule line64 over64 = Inr (cps ''z'')"
  by (simp add: line64_def pattern64_def re_sub_def over64_def lits_def cps_def is_space_def
      sub_all.simps)

lemma o24: "apply_rule line24 over24 = Inr (cps ''z'')"
  by (simp add: line24_def pattern24_def re_sub_def over24_def lits_def cps_def is_space_def
      sub_all.simps)

text \<open>
  The closing \<^verbatim>\<open>\s*\<close> of a pattern is greedy: behind the block of line 64 it takes the
  blank lines that follow, up to the last newline of the run of whitespace.
\<close>

lemma pattern64_takes_trailing_blank_lines:
  "rmatch True False pattern64
     (cps ''// Increment reloadKey to force BetCard to reload\<newline>  setReloadKey(prev => {\<newline>    a\<newline>    b\<newline>  });\<newline>\<newline>  x\<newline>'')
   = Some (cps ''  x\<newline>'')"
  by (simp add: pattern64_def lits_def cps_def is_space_def)

section \<open>The statements compile to the rules\<close>












section \<open>The claims\<close>

text \<open>
  C1, as stated, fails. The run returns no text on any input (C9), so it has no output
  to be run on again. And a deletion can make a new occurrence of its own matcher out of
  the text on the two sides of the occurrence it removes: line 10 leaves the import line
  itself when that line is nested in a copy of itself, and removes it when applied again.
\<close>

theorem idempotence_counterexample:
  "\<not> idempotent_at (\<lambda>x. result (run x)) nested_import
   \<and> apply_rule line10 nested_import = Inr import_line
   \<and> matcher_occurs line10 import_line
   \<and> apply_rule line10 import_line = Inr []
   \<and> \<not> idempotent_at (apply_rule line10) nested_import"
proof -
  obtain c where "run nested_import = Raised (BadEscape 100) c"
    using run_raises by blast
  then have "\<not> idempotent_at (\<lambda>x. result (run x)) nested_import"
    by (simp add: idempotent_at_def)
  moreover have "matcher_occurs line10 import_line"
    by (simp add: line10_def)
  moreover have "\<not> idempotent_at (apply_rule line10) nested_import"
    using import_line_nonempty by (simp add: idempotent_at_def rule10_nested rule10_import)
  ultimately show ?thesis
    by (simp add: rule10_nested rule10_import)
qed

text \<open>
  C1, amended. For each of the sixteen rules with an empty replacement: applied to its own
  output, the rule returns that output unchanged exactly when its matcher does not occur
  in the output.
\<close>

theorem deletion_fixed_iff_output_clean:
  "r \<in> set rules \<Longrightarrow> r \<noteq> line55 \<Longrightarrow> apply_rule r x = Inr y \<Longrightarrow>
   idempotent_at (apply_rule r) x \<longleftrightarrow> \<not> matcher_occurs r y"
  using absent_noop [of r y] deletion_rules [of r] deletion_changes [of r y] rules_nonempty [of r]
  by (auto simp: idempotent_at_def)

theorem deletion_fixed_iff_output_clean_witness:
  "line10 \<in> set rules \<and> line10 \<noteq> line55 \<and> apply_rule line10 import_line = Inr []
   \<and> \<not> matcher_occurs line10 [] \<and> idempotent_at (apply_rule line10) import_line"
proof -
  have a: "line10 \<in> set rules"
    by (simp add: rules_def)
  have b: "line10 \<noteq> line55"
    by (simp add: line10_def line55_def)
  have c: "\<not> matcher_occurs line10 []"
    using import_line_nonempty by (simp add: line10_def)
  from a b c rule10_import deletion_fixed_iff_output_clean [OF a b rule10_import]
  show ?thesis by blast
qed

text \<open>
  C2, as stated, fails: \<^verbatim>\<open>str.replace\<close> is called without a count and replaces every
  occurrence. Of two import lines, line 10 removes both, where the one-shot mode of the
  specification would leave the second.
\<close>

theorem one_shot_counterexample:
  "apply_rule line10 (import_line @ import_line) = Inr []
   \<and> one_shot import_line [] (import_line @ import_line) = import_line
   \<and> apply_rule line10 (import_line @ import_line)
       \<noteq> Inr (one_shot import_line [] (import_line @ import_line))"
  using import_line_nonempty by (auto simp: line10_twice one_shot_hit)

text \<open>
  C2, amended. Line 10 removes every occurrence of the import line found by scanning from
  the left: in a text made of pieces, each followed by the import line and each such that
  the import line occurs no earlier, and a rest without it, only the pieces and the rest
  remain.
\<close>

theorem line10_removes_every_occurrence:
  "(\<forall>a \<in> set as. \<not> sublist import_line (a @ butlast import_line)) \<Longrightarrow>
   \<not> sublist import_line z \<Longrightarrow>
   apply_rule line10 (concat (map (\<lambda>a. a @ import_line) as) @ z) = Inr (concat as @ z)"
  using str_replace_every [of as import_line z "[]"] by (simp add: line10_def)

theorem line10_removes_every_occurrence_witness:
  "\<not> sublist import_line ([] @ butlast import_line)
   \<and> \<not> sublist import_line (cps ''x'' @ butlast import_line)
   \<and> \<not> sublist import_line (cps ''y'')
   \<and> apply_rule line10 (concat (map (\<lambda>a. a @ import_line) [[], cps ''x'']) @ cps ''y'')
       = Inr (concat [[], cps ''x''] @ cps ''y'')"
proof -
  have a: "\<forall>a \<in> set [[], cps ''x'']. \<not> sublist import_line (a @ butlast import_line)"
    by (simp add: import_line_def cps_def sublist_code(3))
  have z: "\<not> sublist import_line (cps ''y'')"
    by (simp add: import_line_def cps_def sublist_code(3))
  from a z line10_removes_every_occurrence [OF a z] show ?thesis
    by simp
qed

text \<open>
  C3 does not hold of the code. In the text \<^verbatim>\<open>const a = 1;\<close> with its newline no matcher of
  any rule occurs, and the run does not return it: line 55 raises.
\<close>

theorem absent_matchers_yet_run_raises:
  "\<not> list_ex (\<lambda>r. matcher_occurs r (cps ''const a = 1;\<newline>'')) rules
   \<and> run (cps ''const a = 1;\<newline>'') = Raised (BadEscape 100) (cps ''const a = 1;\<newline>'')"
proof -
  have none: "\<not> list_ex (\<lambda>r. matcher_occurs r (cps ''const a = 1;\<newline>'')) rules"
    by (simp add: rules_def rule_defs line55_def pattern_defs lits_def cps_def import_line_def
        sublist_code(3))
  have "apply_rule line10 (cps ''const a = 1;\<newline>'') = Inr (cps ''const a = 1;\<newline>'')"
    using none by (intro absent_noop) (simp_all add: rules_def line10_def)
  moreover have "\<not> list_ex (\<lambda>r. matcher_occurs r (cps ''const a = 1;\<newline>''))
      [line14, line15, line16, line17, line18, line19, line20, line21, line24, line32]"
    using none by (simp add: rules_def)
  ultimately have "run (cps ''const a = 1;\<newline>'')
      = Raised (BadEscape 100) (cps ''const a = 1;\<newline>'')"
    by (rule run_absent)
  with none show ?thesis ..
qed

text \<open>
  C4. The run is the rule list folded from the left over the input: every statement takes
  the state the statement before it left (the text, or the pending exception), never the
  input again.
\<close>

theorem run_is_fold: "run x = foldl (\<lambda>content r. assign r content) (Running x) rules"
  by (simp add: run_def rules_def Let_def)

text \<open>
  C5. The outcome of the run is a function of the input text alone: equal inputs give equal
  outcomes. For the script as a whole, two file systems that hold the same text under the
  path of the script give the same result and the same text under that path, whatever
  else they hold.
\<close>

theorem run_deterministic:
  "(x = y \<longrightarrow> run x = run y)
   \<and> (files path = files' path \<longrightarrow>
        snd (script files) = snd (script files')
        \<and> fst (script files) path = fst (script files') path)"
  by (auto simp: script_def split: option.splits outcome.splits)

theorem run_deterministic_witness:
  "run (cps ''const a = 1;'') = run (cps ''const a = 1;'')
   \<and> [path \<mapsto> cps ''const a = 1;''] path = [path \<mapsto> cps ''const a = 1;'', ''notes.txt'' \<mapsto> cps ''x''] path
   \<and> snd (script [path \<mapsto> cps ''const a = 1;''])
       = snd (script [path \<mapsto> cps ''const a = 1;'', ''notes.txt'' \<mapsto> cps ''x''])
   \<and> fst (script [path \<mapsto> cps ''const a = 1;'']) path
       = fst (script [path \<mapsto> cps ''const a = 1;'', ''notes.txt'' \<mapsto> cps ''x'']) path"
proof -
  have same: "[path \<mapsto> cps ''const a = 1;''] path
      = [path \<mapsto> cps ''const a = 1;'', ''notes.txt'' \<mapsto> cps ''x''] path"
    by (simp add: path_def)
  from same run_deterministic [of "cps ''const a = 1;''" "cps ''const a = 1;''"
      "[path \<mapsto> cps ''const a = 1;'']"
      "[path \<mapsto> cps ''const a = 1;'', ''notes.txt'' \<mapsto> cps ''x'']"]
  show ?thesis
    by blast
qed

text \<open>
  C6 does not hold of the code: the matcher of line 55 does not occur in the text, and
  the call raises all the same.
\<close>

theorem absent_matcher_line55_raises:
  "\<not> matcher_occurs line55 (cps ''const a = 1;\<newline>'')
   \<and> apply_rule line55 (cps ''const a = 1;\<newline>'') = Inl (BadEscape 100)"
  by (simp add: line55_raises) (simp add: line55_def old_extract_odds_def lits_def cps_def)

text \<open>
  C7, as stated, fails for lines 24 and 64. Their patterns ask for three lines with
  \<^verbatim>\<open>console.log\<close>, or for two lines, before the closing text; where fewer come before
  the nearest closing text, the match runs on to a later one and takes what lies between.
\<close>

theorem nearest_terminator_counterexample:
  "apply_rule line64 over64 = Inr (cps ''z'')
   \<and> apply_rule line64 over64 \<noteq> Inr (cps ''keep();\<newline>});\<newline>z'')
   \<and> apply_rule line24 over24 = Inr (cps ''z'')
   \<and> apply_rule line24 over24
       \<noteq> Inr (cps ''keep();\<newline>console.log(error);\<newline>}, [picks, loading, error]);\<newline>z'')"
  by (simp add: o64 o24) (simp add: cps_def)

text \<open>
  C7, amended. In each of the four rules with \<^verbatim>\<open>re.DOTALL\<close> the flag is set and every lazy
  block accepts every character, newlines included. Line 18 removes the prefix and the
  text up to the second \<^verbatim>\<open>);\<close> with its newline, \<open>a\<close> and \<open>b\<close> being the texts up to the
  first and to the second one, and the search goes on in the rest. The pattern of line 55
  matches from its two header lines up to the first place in the body where the closing
  text \<open>terminator55\<close> matches, and ends behind it.
\<close>

theorem line18_and_line55_stop_at_nearest_terminator:
  "(r \<in> set dotall_rules \<longrightarrow> r = Sub p repl d \<longrightarrow> Lazy cs \<in> set p \<longrightarrow> d \<and> in_cset d cs c)
   \<and> (\<not> sublist (cps '');\<newline>'') (a @ butlast (cps '');\<newline>'')) \<longrightarrow>
      \<not> sublist (cps '');\<newline>'') (b @ butlast (cps '');\<newline>'')) \<longrightarrow>
      \<not> sublist (cps ''console.log('Time field variations:','')
          (pre @ butlast (cps ''console.log('Time field variations:','')) \<longrightarrow>
      (\<exists>rest'. apply_rule line18 rest = Inr rest' \<and>
         apply_rule line18
           (pre @ cps ''console.log('Time field variations:','' @ a @ cps '');\<newline>'' @ b
            @ cps '');\<newline>'' @ rest) = Inr (pre @ rest')))
   \<and> ((\<forall>x \<in> set w1. is_space x) \<longrightarrow> 10 \<in> set w1 \<longrightarrow>
      (\<forall>x \<in> set w2. is_space x) \<longrightarrow> 10 \<in> set w2 \<longrightarrow>
      (\<forall>k<length body. rmatch True False terminator55
          (drop k body @ cps (''return '' @ [CHR 0x27, CHR 0x27] @ '';'') @ w2
           @ cps ''};'' @ rest2) = None) \<longrightarrow>
      rmatch True False old_extract_odds
        (cps ''// Helper function to extract odds from analysis prompt'' @ w1
         @ cps ''const extractOddsFromAnalysis = (pick) => {'' @ body
         @ cps (''return '' @ [CHR 0x27, CHR 0x27] @ '';'') @ w2 @ cps ''};'' @ rest2)
      = Some rest2)"
proof (intro conjI impI)
  assume "r \<in> set dotall_rules" and "r = Sub p repl d" and "Lazy cs \<in> set p"
  then have "d \<and> in_cset d cs c"
    by (rule dotall_rules_lazy)
  then show d and "in_cset d cs c"
    by blast+
next
  assume a: "\<not> sublist (cps '');\<newline>'') (a @ butlast (cps '');\<newline>''))"
    and b: "\<not> sublist (cps '');\<newline>'') (b @ butlast (cps '');\<newline>''))"
    and pre: "\<not> sublist (cps ''console.log('Time field variations:','')
                (pre @ butlast (cps ''console.log('Time field variations:',''))"
  have "apply_rule line18 rest = Inr (sub_all True False pattern18 [] rest)"
    by (simp add: line18_def re_sub_def)
  with line18_two_terminators [OF a b pre, of rest]
  show "\<exists>rest'. apply_rule line18 rest = Inr rest' \<and>
         apply_rule line18
           (pre @ cps ''console.log('Time field variations:','' @ a @ cps '');\<newline>'' @ b
            @ cps '');\<newline>'' @ rest) = Inr (pre @ rest')"
    by simp
next
  assume "\<forall>x \<in> set w1. is_space x" and "10 \<in> set w1"
    and "\<forall>x \<in> set w2. is_space x" and "10 \<in> set w2"
    and "\<forall>k<length body. rmatch True False terminator55
          (drop k body @ cps (''return '' @ [CHR 0x27, CHR 0x27] @ '';'') @ w2
           @ cps ''};'' @ rest2) = None"
  then show "rmatch True False old_extract_odds
        (cps ''// Helper function to extract odds from analysis prompt'' @ w1
         @ cps ''const extractOddsFromAnalysis = (pick) => {'' @ body
         @ cps (''return '' @ [CHR 0x27, CHR 0x27] @ '';'') @ w2 @ cps ''};'' @ rest2)
      = Some rest2"
    by (rule rmatch55)
qed

theorem line18_and_line55_stop_at_nearest_terminator_witness:
  "line18 \<in> set dotall_rules \<and> line18 = Sub pattern18 [] True \<and> Lazy Dot \<in> set pattern18
   \<and> in_cset True Dot 10
   \<and> \<not> sublist (cps '');\<newline>'') (cps '' x\<newline>  y'' @ butlast (cps '');\<newline>''))
   \<and> \<not> sublist (cps '');\<newline>'') (cps ''  z'' @ butlast (cps '');\<newline>''))
   \<and> \<not> sublist (cps ''console.log('Time field variations:','')
          (cps ''f();\<newline>'' @ butlast (cps ''console.log('Time field variations:',''))
   \<and> apply_rule line18
         (cps ''f();\<newline>'' @ cps ''console.log('Time field variations:',''
          @ cps '' x\<newline>  y'' @ cps '');\<newline>'' @ cps ''  z'' @ cps '');\<newline>''
          @ cps ''g();\<newline>'') = Inr (cps ''f();\<newline>'' @ cps ''g();\<newline>'')
   \<and> 10 \<in> set (cps ''\<newline>  '') \<and> 10 \<in> set (cps '' \<newline>'')
   \<and> rmatch True False old_extract_odds
        (cps ''// Helper function to extract odds from analysis prompt'' @ cps ''\<newline>  ''
         @ cps ''const extractOddsFromAnalysis = (pick) => {''
         @ cps ''\<newline>    return pick.odds;\<newline>  ''
         @ cps (''return '' @ [CHR 0x27, CHR 0x27] @ '';'') @ cps '' \<newline>'' @ cps ''};''
         @ cps ''\<newline>next();'')
      = Some (cps ''\<newline>next();'')"
proof -
  note inst = line18_and_line55_stop_at_nearest_terminator
    [where r = line18 and p = pattern18 and repl = "[]" and d = True and cs = Dot and c = 10
      and a = "cps '' x\<newline>  y''" and b = "cps ''  z''" and pre = "cps ''f();\<newline>''"
      and rest = "cps ''g();\<newline>''" and ?w1.0 = "cps ''\<newline>  ''" and ?w2.0 = "cps '' \<newline>''"
      and body = "cps ''\<newline>    return pick.odds;\<newline>  ''" and ?rest2.0 = "cps ''\<newline>next();''"]
  have r: "line18 \<in> set dotall_rules"
    by (simp add: dotall_rules_def)
  have p: "line18 = Sub pattern18 [] True"
    by (simp add: line18_def)
  have l: "Lazy Dot \<in> set pattern18"
    by (simp add: pattern18_def)
  from inst r p l have dot: "in_cset True Dot 10"
    by blast
  have a: "\<not> sublist (cps '');\<newline>'') (cps '' x\<newline>  y'' @ butlast (cps '');\<newline>''))"
    by (simp add: cps_def sublist_code(3))
  have b: "\<not> sublist (cps '');\<newline>'') (cps ''  z'' @ butlast (cps '');\<newline>''))"
    by (simp add: cps_def sublist_code(3))
  have pre: "\<not> sublist (cps ''console.log('Time field variations:','')
          (cps ''f();\<newline>'' @ butlast (cps ''console.log('Time field variations:',''))"
    by (simp add: cps_def sublist_code(3))
  from inst a b pre no_match_in_short
  have second: "apply_rule line18
         (cps ''f();\<newline>'' @ cps ''console.log('Time field variations:',''
          @ cps '' x\<newline>  y'' @ cps '');\<newline>'' @ cps ''  z'' @ cps '');\<newline>''
          @ cps ''g();\<newline>'') = Inr (cps ''f();\<newline>'' @ cps ''g();\<newline>'')"
    by auto
  have w1: "\<forall>x \<in> set (cps ''\<newline>  ''). is_space x" "10 \<in> set (cps ''\<newline>  '')"
    by (simp_all add: cps_def is_space_def)
  have w2: "\<forall>x \<in> set (cps '' \<newline>''). is_space x" "10 \<in> set (cps '' \<newline>'')"
    by (simp_all add: cps_def is_space_def)
  have nr: "\<not> sublist (cps (''return '' @ [CHR 0x27, CHR 0x27] @ '';''))
      (cps ''\<newline>    return pick.odds;\<newline>  ''
       @ butlast (cps (''return '' @ [CHR 0x27, CHR 0x27] @ '';'')))"
    by (simp add: cps_def sublist_code(3))
  have body: "\<forall>k<length (cps ''\<newline>    return pick.odds;\<newline>  '').
      rmatch True False terminator55
        (drop k (cps ''\<newline>    return pick.odds;\<newline>  '')
         @ cps (''return '' @ [CHR 0x27, CHR 0x27] @ '';'') @ cps '' \<newline>'' @ cps ''};''
         @ cps ''\<newline>next();'') = None"
    unfolding terminator55_def by (rule terminator_first [OF nr])
  from inst w1 w2 body
  have third: "rmatch True False old_extract_odds
        (cps ''// Helper function to extract odds from analysis prompt'' @ cps ''\<newline>  ''
         @ cps ''const extractOddsFromAnalysis = (pick) => {''
         @ cps ''\<newline>    return pick.odds;\<newline>  ''
         @ cps (''return '' @ [CHR 0x27, CHR 0x27] @ '';'') @ cps '' \<newline>'' @ cps ''};''
         @ cps ''\<newline>next();'')
      = Some (cps ''\<newline>next();'')"
    by blast
  from r p l dot a b pre second w1(2) w2(2) third show ?thesis
    by (intro conjI)
qed




text \<open>
  C9 does not hold of the code. On no input does the run return a text: the call on line
  55 raises \<^verbatim>\<open>re.error\<close> ("bad escape \d") while it parses its replacement, whatever the
  text is.
\<close>

theorem run_never_returns: "run x \<noteq> Running c"
  using run_raises [of x] by auto

text \<open>
  C10. Every rule but the one of line 55 has the empty replacement, returns a text on every
  input, and that text is never longer than the input.
\<close>

theorem deletion_rules_never_lengthen:
  "\<forall>r \<in> set rules. r \<noteq> line55 \<longrightarrow>
     replacement r = [] \<and> (\<forall>x. \<exists>y. apply_rule r x = Inr y \<and> length y \<le> length x)"
  using deletion_rules deletion_total by blast

theorem deletion_rules_never_lengthen_witness:
  "line10 \<in> set rules \<and> line10 \<noteq> line55 \<and> replacement line10 = []
   \<and> (\<exists>y. apply_rule line10 import_line = Inr y \<and> length y \<le> length import_line)"
proof -
  have a: "line10 \<in> set rules"
    by (simp add: rules_def)
  have b: "line10 \<noteq> line55"
    by (simp add: line10_def line55_def)
  from deletion_rules_never_lengthen a b show ?thesis
    by blast
qed

end
